theory Spec2Isabelle
  imports Complex_Main "HOL-Library.Word"
begin

unbundle bit_operations_syntax

section \<open>The compute workload: \<open>cpu_work\<close>\<close>

text \<open>
  Python integers are unbounded, so the accumulator is an \<open>int\<close> and the mask
  \<open>& 0xFFFFFFFF\<close> is the bitwise conjunction on \<open>int\<close>.
  \<^verbatim>\<open>
  def cpu_work(units: int) -> int:
      acc = 0
      for i in range(units):
          acc = (acc * 1664525 + 1013904223 + i) & 0xFFFFFFFF
      return acc
  \<close>
  \<open>range(n)\<close> is empty for \<open>n \<le> 0\<close> and counts \<open>0, 1, ..., n - 1\<close> otherwise.
\<close>

definition py_range :: "int \<Rightarrow> int list" where
  "py_range n = [0..n - 1]"

definition cpu_step :: "int \<Rightarrow> int \<Rightarrow> int" where
  "cpu_step i acc = (acc * 1664525 + 1013904223 + i) AND 0xFFFFFFFF"

definition cpu_work :: "int \<Rightarrow> int" where
  "cpu_work units = fold cpu_step (py_range units) 0"

text \<open>
  The recurrence as the specification words it: \<open>n\<close> iterations of a linear-congruential
  update modulo \<open>2 ^ 32\<close> that folds in the iteration index, starting from 0.
\<close>

primrec lcg_spec :: "nat \<Rightarrow> int" where
  "lcg_spec 0 = 0"
| "lcg_spec (Suc n) = (lcg_spec n * 1664525 + 1013904223 + int n) mod 2 ^ 32"

section \<open>Results and their statistics\<close>

text \<open>
  Exceptions are values. \<open>RuntimeError\<close> carries its message, which is all that tells the
  two failures of the echo client apart.
\<close>

datatype py_error =
  RuntimeError string | ValueError | StatisticsError | OSError | IncompleteReadError

text \<open>
  Durations are Python floats. They are modelled as reals, with \<open>float("nan")\<close> as a value of
  its own: rounding is not modelled.
\<close>

datatype pyfloat = Num real | NaN

text \<open>
  \<open>statistics.median\<close> of the standard library: sort, raise \<open>StatisticsError\<close> on no data,
  return the middle element for an odd count and the mean of the two middle elements for
  an even one.
\<close>

definition statistics_median :: "real list \<Rightarrow> py_error + real" where
  "statistics_median data =
     (let d = sort data; n = length d in
      if n = 0 then Inl StatisticsError
      else if n mod 2 = 1 then Inr (d ! (n div 2))
      else (let i = n div 2 in Inr ((d ! (i - 1) + d ! i) / 2)))"

text \<open>\<^verbatim>\<open>return statistics.median(xs) if xs else float("nan")\<close>\<close>

definition median :: "real list \<Rightarrow> py_error + pyfloat" where
  "median xs = (if xs \<noteq> [] then map_sum id Num (statistics_median xs) else Inr NaN)"

text \<open>The builtins \<open>min\<close> and \<open>max\<close> on a list: \<open>ValueError\<close> on an empty one.\<close>

fun py_min :: "real list \<Rightarrow> py_error + real" where
  "py_min [] = Inl ValueError"
| "py_min (x # xs) = Inr (fold min xs x)"

fun py_max :: "real list \<Rightarrow> py_error + real" where
  "py_max [] = Inl ValueError"
| "py_max (x # xs) = Inr (fold max xs x)"

record Result =
  name :: string
  runs :: "real list"

definition Result_med :: "Result \<Rightarrow> py_error + pyfloat" where
  "Result_med r = median (runs r)"

definition Result_min :: "Result \<Rightarrow> py_error + pyfloat" where
  "Result_min r = (if runs r \<noteq> [] then map_sum id Num (py_min (runs r)) else Inr NaN)"

definition Result_max :: "Result \<Rightarrow> py_error + pyfloat" where
  "Result_max r = (if runs r \<noteq> [] then map_sum id Num (py_max (runs r)) else Inr NaN)"

text \<open>
  The conventional statistical median, as the specification words it: the middle element of
  the sorted data for an odd count, the arithmetic mean of the two middle elements for an
  even count. \<open>is_median\<close> is the property that makes a value a median: at least half of
  the data lies at or below it, and at least half at or above it.
\<close>

definition conventional_median :: "real list \<Rightarrow> real" where
  "conventional_median xs =
     (if odd (length xs) then sort xs ! (length xs div 2)
      else (sort xs ! (length xs div 2 - 1) + sort xs ! (length xs div 2)) / 2)"

definition is_median :: "real \<Rightarrow> real list \<Rightarrow> bool" where
  "is_median m xs \<longleftrightarrow>
     length xs \<le> 2 * length (filter (\<lambda>x. x \<le> m) xs) \<and>
     length xs \<le> 2 * length (filter (\<lambda>x. m \<le> x) xs)"

section \<open>The trial runner\<close>

text \<open>
  \<^verbatim>\<open>
  def run_repeated(label, repeats, fn, warmup=1) -> Result:
      for _ in range(warmup):
          fn()
      runs = []
      for _ in range(repeats):
          t0 = now()
          fn()
          runs.append(now() - t0)
      return Result(label, runs)
  \<close>
  The invocation \<open>fn\<close> and the clock \<open>now\<close> (\<open>time.perf_counter\<close>) act on the world outside
  the runner, a state of type \<open>'w\<close> that is threaded through every call. An invocation either
  raises (\<open>Inl\<close>) or returns with the world changed; an exception ends the run at once.
  A loop over \<open>range(n)\<close> whose body ignores the index runs \<open>nat n\<close> times.
\<close>

fun warmup_loop :: "nat \<Rightarrow> ('w \<Rightarrow> 'e + 'w) \<Rightarrow> 'w \<Rightarrow> 'e + 'w" where
  "warmup_loop 0 fn w = Inr w"
| "warmup_loop (Suc n) fn w =
     (case fn w of Inl e \<Rightarrow> Inl e | Inr w' \<Rightarrow> warmup_loop n fn w')"

fun measure_loop ::
  "nat \<Rightarrow> ('w \<Rightarrow> real \<times> 'w) \<Rightarrow> ('w \<Rightarrow> 'e + 'w) \<Rightarrow> real list \<Rightarrow> 'w \<Rightarrow> 'e + real list \<times> 'w" where
  "measure_loop 0 now fn rs w = Inr (rs, w)"
| "measure_loop (Suc n) now fn rs w =
     (case now w of (t0, w1) \<Rightarrow>
        (case fn w1 of
           Inl e \<Rightarrow> Inl e
         | Inr w2 \<Rightarrow> (case now w2 of (t1, w3) \<Rightarrow> measure_loop n now fn (rs @ [t1 - t0]) w3)))"

definition run_repeated ::
  "string \<Rightarrow> int \<Rightarrow> ('w \<Rightarrow> 'e + 'w) \<Rightarrow> int \<Rightarrow> ('w \<Rightarrow> real \<times> 'w) \<Rightarrow> 'w \<Rightarrow> 'e + Result \<times> 'w" where
  "run_repeated label repeats fn warmup now w =
     (case warmup_loop (nat warmup) fn w of
        Inl e \<Rightarrow> Inl e
      | Inr w1 \<Rightarrow>
          (case measure_loop (nat repeats) now fn [] w1 of
             Inl e \<Rightarrow> Inl e
           | Inr (rs, w2) \<Rightarrow> Inr (\<lparr>name = label, runs = rs\<rparr>, w2)))"

text \<open>
  \<open>run_repeated_async\<close> awaits \<open>coro_factory()\<close> and \<open>run_repeated_blocking\<close> awaits
  \<open>asyncio.to_thread(fn)\<close> where \<open>run_repeated\<close> calls \<open>fn()\<close>. The runner is suspended until
  the awaited invocation has finished, and receives its exception if it raised: to the
  runner, awaiting is a call.
\<close>

definition py_await :: "('w \<Rightarrow> 'e + 'w) \<Rightarrow> 'w \<Rightarrow> 'e + 'w" where
  "py_await coro w = coro w"

definition to_thread :: "('w \<Rightarrow> 'e + 'w) \<Rightarrow> 'w \<Rightarrow> 'e + 'w" where
  "to_thread fn w = fn w"

definition run_repeated_async ::
  "string \<Rightarrow> int \<Rightarrow> ('w \<Rightarrow> 'e + 'w) \<Rightarrow> int \<Rightarrow> ('w \<Rightarrow> real \<times> 'w) \<Rightarrow> 'w \<Rightarrow> 'e + Result \<times> 'w" where
  "run_repeated_async label repeats coro_factory warmup now w =
     (case warmup_loop (nat warmup) (py_await coro_factory) w of
        Inl e \<Rightarrow> Inl e
      | Inr w1 \<Rightarrow>
          (case measure_loop (nat repeats) now (py_await coro_factory) [] w1 of
             Inl e \<Rightarrow> Inl e
           | Inr (rs, w2) \<Rightarrow> Inr (\<lparr>name = label, runs = rs\<rparr>, w2)))"

definition run_repeated_blocking ::
  "string \<Rightarrow> int \<Rightarrow> ('w \<Rightarrow> 'e + 'w) \<Rightarrow> int \<Rightarrow> ('w \<Rightarrow> real \<times> 'w) \<Rightarrow> 'w \<Rightarrow> 'e + Result \<times> 'w" where
  "run_repeated_blocking label repeats fn warmup now w =
     (case warmup_loop (nat warmup) (py_await (to_thread fn)) w of
        Inl e \<Rightarrow> Inl e
      | Inr w1 \<Rightarrow>
          (case measure_loop (nat repeats) now (py_await (to_thread fn)) [] w1 of
             Inl e \<Rightarrow> Inl e
           | Inr (rs, w2) \<Rightarrow> Inr (\<lparr>name = label, runs = rs\<rparr>, w2)))"

text \<open>
  To speak about what a run did, the world is paired with a log: every clock reading and
  every invocation that returned is appended to it. The runner itself is unchanged; it just
  runs on the logging versions of \<open>fn\<close> and \<open>now\<close>.
\<close>

datatype event = Invoke | Clock real

definition traced_fn :: "('w \<Rightarrow> 'e + 'w) \<Rightarrow> 'w \<times> event list \<Rightarrow> 'e + 'w \<times> event list" where
  "traced_fn fn = (\<lambda>(w, tr). case fn w of Inl e \<Rightarrow> Inl e | Inr w' \<Rightarrow> Inr (w', tr @ [Invoke]))"

definition traced_now :: "('w \<Rightarrow> real \<times> 'w) \<Rightarrow> 'w \<times> event list \<Rightarrow> real \<times> 'w \<times> event list" where
  "traced_now now = (\<lambda>(w, tr). case now w of (t, w') \<Rightarrow> (t, (w', tr @ [Clock t])))"

fun is_clock :: "event \<Rightarrow> bool" where
  "is_clock (Clock t) = True"
| "is_clock Invoke = False"

fun readings :: "event list \<Rightarrow> real list" where
  "readings [] = []"
| "readings (Clock t # es) = t # readings es"
| "readings (Invoke # es) = readings es"

text \<open>
  The durations a log shows: an invocation between two readings is a measured one, and its
  duration is the difference of the readings; any other invocation is unmeasured.
\<close>

fun trace_durations :: "event list \<Rightarrow> real list" where
  "trace_durations (Clock t0 # Invoke # Clock t1 # es) = (t1 - t0) # trace_durations es"
| "trace_durations (e # es) = trace_durations es"
| "trace_durations [] = []"

text \<open>The log of one measured trial, and of \<open>w\<close> warmups followed by the trials \<open>ps\<close>.\<close>

definition trial :: "real \<times> real \<Rightarrow> event list" where
  "trial p = [Clock (fst p), Invoke, Clock (snd p)]"

definition run_log :: "nat \<Rightarrow> (real \<times> real) list \<Rightarrow> event list" where
  "run_log n ps = replicate n Invoke @ concat (map trial ps)"

text \<open>
  A small concrete world for closed instances: the world is a tick counter, reading the
  clock returns the counter and takes one tick, an invocation takes five ticks, and
  \<open>failing\<close> is an invocation that raises.
\<close>

definition tick_now :: "nat \<Rightarrow> real \<times> nat" where
  "tick_now c = (real c, c + 1)"

definition busy :: "nat \<Rightarrow> py_error + nat" where
  "busy c = Inr (c + 5)"

definition failing :: "nat \<Rightarrow> py_error + nat" where
  "failing c = Inl (RuntimeError ''Echo mismatch'')"

section \<open>Properties of \<open>cpu_work\<close>\<close>

lemma cpu_step_mod: "cpu_step i acc = (acc * 1664525 + 1013904223 + i) mod 2 ^ 32"
proof -
  have "(0xFFFFFFFF::int) = mask 32"
    by (simp add: mask_eq_exp_minus_1)
  then show ?thesis
    unfolding cpu_step_def by (simp only: take_bit_eq_mask [symmetric] take_bit_eq_mod)
qed

lemma py_range_nat: "py_range (int n) = map int [0..<n]"
proof (induction n)
  case 0
  show ?case by (simp add: py_range_def)
next
  case (Suc n)
  have "py_range (int (Suc n)) = [0..int n]"
    by (simp add: py_range_def)
  also have "\<dots> = [0..int n - 1] @ [int n]"
    by (rule upto_rec2) simp
  finally show ?case
    using Suc.IH by (simp add: py_range_def)
qed

lemma py_range_neg: "n \<le> 0 \<Longrightarrow> py_range n = []"
  by (simp add: py_range_def)

lemma length_py_range: "length (py_range n) = nat n"
proof (cases "0 \<le> n")
  case True
  then have "py_range n = map int [0..<nat n]"
    using py_range_nat [of "nat n"] by simp
  then show ?thesis by simp
next
  case False
  then show ?thesis by (simp add: py_range_neg)
qed

lemma fold_cpu_step_spec: "fold cpu_step (map int [0..<n]) 0 = lcg_spec n"
  by (induction n) (simp_all add: cpu_step_mod)

lemma cpu_step_range: "0 \<le> cpu_step i acc \<and> cpu_step i acc < 2 ^ 32"
  by (simp add: cpu_step_mod)

lemma fold_cpu_step_bounded:
  "0 \<le> acc \<and> acc < 2 ^ 32 \<Longrightarrow> 0 \<le> fold cpu_step js acc \<and> fold cpu_step js acc < 2 ^ 32"
proof (induction js arbitrary: acc)
  case Nil
  then show ?case by simp
next
  case (Cons i js)
  show ?case
    using Cons.IH [OF cpu_step_range [of i acc]] by simp
qed

text \<open>
  Claim C9. The value returned by \<open>cpu_work units\<close> lies in \<open>[0, 2 ^ 32)\<close> for every
  \<open>units\<close>: the mask applied in each iteration keeps the accumulator in that range (the
  loop invariant is \<open>fold_cpu_step_bounded\<close>), and with no iteration the result is 0.
\<close>

theorem cpu_work_range: "0 \<le> cpu_work units \<and> cpu_work units < 2 ^ 32"
  unfolding cpu_work_def by (rule fold_cpu_step_bounded) simp

text \<open>
  Claim C5. For \<open>units \<ge> 0\<close>, \<open>cpu_work units\<close> is the value of the recurrence
  \<open>acc := (acc * 1664525 + 1013904223 + i) mod 2 ^ 32\<close> after exactly \<open>units\<close> iterations
  from \<open>acc = 0\<close>, the loop running over the indices \<open>0, ..., units - 1\<close> in order. The model
  is a function of \<open>units\<close> alone (the source reads and writes nothing but its locals), so
  equal arguments give equal values and equal iteration counts.
\<close>

theorem cpu_work_recurrence:
  assumes "0 \<le> units"
  shows "cpu_work units = lcg_spec (nat units)
    \<and> py_range units = map int [0..<nat units]
    \<and> int (length (py_range units)) = units"
proof -
  have r: "py_range units = map int [0..<nat units]"
    using py_range_nat [of "nat units"] assms by simp
  have "cpu_work units = lcg_spec (nat units)"
    unfolding cpu_work_def r by (rule fold_cpu_step_spec)
  with r assms show ?thesis by simp
qed

theorem cpu_work_recurrence_witness:
  "(0::int) \<le> 3 \<and> cpu_work 3 = 3521535224 \<and> lcg_spec (nat 3) = 3521535224
    \<and> length (py_range 3) = 3"
  using cpu_work_recurrence [of 3] by (simp add: eval_nat_numeral)

section \<open>Properties of the statistics\<close>

lemma sort_Nil_iff: "sort xs = [] \<longleftrightarrow> xs = []"
  by (metis length_sort length_0_conv)

lemma statistics_median_conventional:
  assumes "xs \<noteq> []"
  shows "statistics_median xs = Inr (conventional_median xs)"
proof (cases "odd (length xs)")
  case True
  then have "length xs mod 2 = 1"
    by (simp add: odd_iff_mod_2_eq_one)
  with True assms show ?thesis
    by (simp add: statistics_median_def conventional_median_def Let_def sort_Nil_iff)
next
  case False
  then have "length xs mod 2 \<noteq> 1"
    by (simp add: odd_iff_mod_2_eq_one)
  with False assms show ?thesis
    by (simp add: statistics_median_def conventional_median_def Let_def sort_Nil_iff)
qed

lemma sorted_count_le:
  assumes "sorted d" "k < length d" "d ! k \<le> (m::real)"
  shows "k + 1 \<le> length (filter (\<lambda>x. x \<le> m) d)"
proof -
  have all: "\<forall>x \<in> set (take (k + 1) d). x \<le> m"
  proof
    fix x assume "x \<in> set (take (k + 1) d)"
    then obtain j where j: "j < k + 1" "j < length d" "x = d ! j"
      by (auto simp: in_set_conv_nth)
    then have "d ! j \<le> d ! k"
      using assms(1,2) by (intro sorted_nth_mono) auto
    with j assms(3) show "x \<le> m" by simp
  qed
  have "filter (\<lambda>x. x \<le> m) d
      = filter (\<lambda>x. x \<le> m) (take (k + 1) d) @ filter (\<lambda>x. x \<le> m) (drop (k + 1) d)"
    by (metis append_take_drop_id filter_append)
  also have "filter (\<lambda>x. x \<le> m) (take (k + 1) d) = take (k + 1) d"
    using all by (simp add: filter_id_conv)
  finally have "length (filter (\<lambda>x. x \<le> m) d) \<ge> length (take (k + 1) d)"
    by simp
  with assms(2) show ?thesis by simp
qed

lemma sorted_count_ge:
  assumes "sorted d" "k < length d" "(m::real) \<le> d ! k"
  shows "length d - k \<le> length (filter (\<lambda>x. m \<le> x) d)"
proof -
  have all: "\<forall>x \<in> set (drop k d). m \<le> x"
  proof
    fix x assume "x \<in> set (drop k d)"
    then obtain j where j: "j < length d - k" "x = d ! (k + j)"
      by (auto simp: in_set_conv_nth)
    then have "d ! k \<le> d ! (k + j)"
      using assms(1,2) by (intro sorted_nth_mono) auto
    with j assms(3) show "m \<le> x" by simp
  qed
  have "filter (\<lambda>x. m \<le> x) d
      = filter (\<lambda>x. m \<le> x) (take k d) @ filter (\<lambda>x. m \<le> x) (drop k d)"
    by (metis append_take_drop_id filter_append)
  also have "filter (\<lambda>x. m \<le> x) (drop k d) = drop k d"
    using all by (simp add: filter_id_conv)
  finally have "length (filter (\<lambda>x. m \<le> x) d) \<ge> length (drop k d)"
    by simp
  then show ?thesis by simp
qed

lemma length_filter_sort:
  "length (filter P (sort xs)) = length (filter P (xs::real list))"
  by (simp add: filter_sort)

lemma conventional_median_is_median:
  assumes "xs \<noteq> []"
  shows "is_median (conventional_median xs) xs"
proof -
  let ?d = "sort xs" and ?n = "length xs"
  let ?a = "(?n - 1) div 2" and ?b = "?n div 2"
  let ?m = "conventional_median xs"
  have pos: "0 < ?n" using assms by simp
  have s: "sorted ?d" and l: "length ?d = ?n" by simp_all
  have ab: "?a \<le> ?b" "?b < ?n" "?a < ?n" using pos by arith+
  have le: "?d ! ?a \<le> ?d ! ?b"
    using s ab l by (intro sorted_nth_mono) auto
  have m: "?m = (?d ! ?a + ?d ! ?b) / 2"
  proof (cases "odd ?n")
    case True
    then have "?a = ?b" by presburger
    with True show ?thesis by (simp add: conventional_median_def)
  next
    case False
    then have "?a = ?b - 1" using pos by presburger
    with False show ?thesis by (simp add: conventional_median_def)
  qed
  have lo: "?d ! ?a \<le> ?m" and hi: "?m \<le> ?d ! ?b"
    using le unfolding m by simp_all
  have "?a + 1 \<le> length (filter (\<lambda>x. x \<le> ?m) ?d)"
    using s ab l lo by (intro sorted_count_le) auto
  then have c1: "?a + 1 \<le> length (filter (\<lambda>x. x \<le> ?m) xs)"
    by (simp only: length_filter_sort)
  have "length ?d - ?b \<le> length (filter (\<lambda>x. ?m \<le> x) ?d)"
    using s ab l hi by (intro sorted_count_ge) auto
  then have c2: "?n - ?b \<le> length (filter (\<lambda>x. ?m \<le> x) xs)"
    by (simp only: length_filter_sort l)
  have "?n \<le> 2 * (?a + 1)" "?n \<le> 2 * (?n - ?b)" using pos by presburger+
  with c1 c2 show ?thesis
    unfolding is_median_def by linarith
qed

text \<open>
  Claim C8. For a Result with a non-empty list of durations, \<open>med\<close> returns (without raising)
  the conventional statistical median of the list: the middle element of the sorted
  durations for an odd count, the mean of the two middle elements for an even count
  (interpolated, not nearest-rank); that value is a median of the list, at least half of the
  durations lying on either side of it.
\<close>

theorem Result_med_conventional:
  assumes "runs r \<noteq> []"
  shows "Result_med r = Inr (Num (conventional_median (runs r)))
    \<and> is_median (conventional_median (runs r)) (runs r)"
  using assms
  by (simp add: Result_med_def median_def statistics_median_conventional
      conventional_median_is_median)

theorem Result_med_conventional_witness:
  "runs \<lparr>name = ''threads'', runs = [3, 1, 2, 5]\<rparr> \<noteq> []
    \<and> Result_med \<lparr>name = ''threads'', runs = [3, 1, 2, 5]\<rparr> = Inr (Num (5 / 2))
    \<and> Result_med \<lparr>name = ''threads'', runs = [3, 1, 2]\<rparr> = Inr (Num 2)"
  using Result_med_conventional [of "\<lparr>name = ''threads'', runs = [3, 1, 2, 5]\<rparr>"]
    Result_med_conventional [of "\<lparr>name = ''threads'', runs = [3, 1, 2]\<rparr>"]
  by (simp add: conventional_median_def)

section \<open>Properties of the trial runner\<close>

lemma warmup_loop_traced:
  "warmup_loop n (traced_fn fn) (w, tr) = Inr (w', tr') \<Longrightarrow> tr' = tr @ replicate n Invoke"
proof (induction n arbitrary: w tr)
  case 0
  then show ?case by simp
next
  case (Suc n)
  from Suc.prems obtain w1 where f: "fn w = Inr w1"
    and r: "warmup_loop n (traced_fn fn) (w1, tr @ [Invoke]) = Inr (w', tr')"
    by (auto simp: traced_fn_def split: sum.splits)
  from Suc.IH [OF r] show ?case
    by (simp add: replicate_app_Cons_same)
qed

lemma measure_loop_traced:
  "measure_loop n (traced_now now) (traced_fn fn) rs (w, tr) = Inr (rs', (w', tr')) \<Longrightarrow>
     \<exists>ps. length ps = n \<and> tr' = tr @ concat (map trial ps)
       \<and> rs' = rs @ map (\<lambda>p. snd p - fst p) ps"
proof (induction n arbitrary: rs w tr)
  case 0
  then show ?case by simp
next
  case (Suc n)
  obtain t0 w1 where n0: "now w = (t0, w1)" by (cases "now w")
  from Suc.prems n0 obtain w2 where f: "fn w1 = Inr w2"
    by (auto simp: traced_now_def traced_fn_def split: sum.splits)
  obtain t1 w3 where n1: "now w2 = (t1, w3)" by (cases "now w2")
  from Suc.prems n0 f n1
  have "measure_loop n (traced_now now) (traced_fn fn) (rs @ [t1 - t0])
      (w3, tr @ trial (t0, t1)) = Inr (rs', (w', tr'))"
    by (simp add: traced_now_def traced_fn_def trial_def)
  from Suc.IH [OF this] obtain ps where ps: "length ps = n"
    "tr' = (tr @ trial (t0, t1)) @ concat (map trial ps)"
    "rs' = (rs @ [t1 - t0]) @ map (\<lambda>p. snd p - fst p) ps"
    by blast
  then have "length ((t0, t1) # ps) = Suc n
      \<and> tr' = tr @ concat (map trial ((t0, t1) # ps))
      \<and> rs' = rs @ map (\<lambda>p. snd p - fst p) ((t0, t1) # ps)"
    by simp
  then show ?case by blast
qed

lemma trace_durations_trials:
  "trace_durations (concat (map trial ps)) = map (\<lambda>p. snd p - fst p) ps"
  by (induction ps) (simp_all add: trial_def)

lemma trace_durations_run_log:
  "trace_durations (run_log n ps) = map (\<lambda>p. snd p - fst p) ps"
proof (induction n)
  case 0
  then show ?case by (simp add: run_log_def trace_durations_trials)
next
  case (Suc n)
  have "trace_durations (Invoke # es) = trace_durations es" for es
    by (cases es rule: trace_durations.cases) simp_all
  with Suc show ?case by (simp add: run_log_def)
qed

lemma is_clock_run_log:
  "map is_clock (run_log n ps)
     = replicate n False @ concat (replicate (length ps) [True, False, True])"
proof -
  have "map is_clock (concat (map trial ps)) = concat (replicate (length ps) [True, False, True])"
    by (induction ps) (simp_all add: trial_def)
  then show ?thesis by (simp add: run_log_def)
qed

lemma invocations_run_log:
  "length (filter (\<lambda>e. \<not> is_clock e) (run_log n ps)) = n + length ps"
proof -
  have "length (filter (\<lambda>e. \<not> is_clock e) (concat (map trial ps))) = length ps"
    by (induction ps) (simp_all add: trial_def)
  then show ?thesis by (simp add: run_log_def)
qed

lemma readings_run_log:
  "readings (run_log n ps) = concat (map (\<lambda>p. [fst p, snd p]) ps)"
proof -
  have a: "readings (replicate n Invoke @ es) = readings es" for es
    by (induction n) simp_all
  have "readings (concat (map trial ps)) = concat (map (\<lambda>p. [fst p, snd p]) ps)"
    by (induction ps) (simp_all add: trial_def)
  then show ?thesis by (simp add: run_log_def a)
qed

lemma sorted_readings_nonneg:
  assumes "sorted (readings (run_log n ps))"
  shows "\<forall>d \<in> set (map (\<lambda>p. snd p - fst p) ps). 0 \<le> d"
proof -
  have "sorted (concat (map (\<lambda>p. [fst p, snd p]) ps)) \<Longrightarrow> \<forall>p \<in> set ps. fst p \<le> snd p"
    by (induction ps) (auto simp: sorted_append)
  with assms show ?thesis by (auto simp: readings_run_log)
qed

lemma run_traced:
  assumes "(case warmup_loop (nat warmup) (traced_fn fn) (w, []) of
        Inl e \<Rightarrow> Inl e
      | Inr w1 \<Rightarrow>
          (case measure_loop (nat repeats) (traced_now now) (traced_fn fn) [] w1 of
             Inl e \<Rightarrow> Inl e
           | Inr (rs, w2) \<Rightarrow> Inr (\<lparr>name = label, runs = rs\<rparr>, w2))) = Inr (res, (w', tr))"
  shows "\<exists>ps. length ps = nat repeats \<and> tr = run_log (nat warmup) ps
     \<and> runs res = map (\<lambda>p. snd p - fst p) ps \<and> name res = label"
proof -
  from assms obtain w1 tr1 rs where
    a: "warmup_loop (nat warmup) (traced_fn fn) (w, []) = Inr (w1, tr1)" and
    b: "measure_loop (nat repeats) (traced_now now) (traced_fn fn) [] (w1, tr1) = Inr (rs, (w', tr))" and
    c: "res = \<lparr>name = label, runs = rs\<rparr>"
    by (auto split: sum.splits prod.splits)
  from warmup_loop_traced [OF a] have "tr1 = replicate (nat warmup) Invoke" by simp
  with measure_loop_traced [OF b] c show ?thesis
    by (auto simp: run_log_def)
qed

lemma traced_await: "py_await (traced_fn fn) = traced_fn (py_await fn)"
  by (auto simp: py_await_def traced_fn_def fun_eq_iff)

lemma traced_to_thread: "to_thread (traced_fn fn) = traced_fn (to_thread fn)"
  by (auto simp: to_thread_def traced_fn_def fun_eq_iff)

lemma run_repeated_traced:
  assumes "run_repeated label repeats (traced_fn fn) warmup (traced_now now) (w, [])
     = Inr (res, (w', tr))"
  shows "\<exists>ps. length ps = nat repeats \<and> tr = run_log (nat warmup) ps
     \<and> runs res = map (\<lambda>p. snd p - fst p) ps \<and> name res = label"
  using assms unfolding run_repeated_def by (rule run_traced)

lemma run_repeated_async_traced:
  assumes "run_repeated_async label repeats (traced_fn fn) warmup (traced_now now) (w, [])
     = Inr (res, (w', tr))"
  shows "\<exists>ps. length ps = nat repeats \<and> tr = run_log (nat warmup) ps
     \<and> runs res = map (\<lambda>p. snd p - fst p) ps \<and> name res = label"
  using assms unfolding run_repeated_async_def traced_await by (rule run_traced)

lemma run_repeated_blocking_traced:
  assumes "run_repeated_blocking label repeats (traced_fn fn) warmup (traced_now now) (w, [])
     = Inr (res, (w', tr))"
  shows "\<exists>ps. length ps = nat repeats \<and> tr = run_log (nat warmup) ps
     \<and> runs res = map (\<lambda>p. snd p - fst p) ps \<and> name res = label"
  using assms unfolding run_repeated_blocking_def traced_await traced_to_thread
  by (rule run_traced)

lemma warmup_loop_erase:
  "map_sum id fst (warmup_loop n (traced_fn fn) (w, tr)) = warmup_loop n fn w"
  by (induction n arbitrary: w tr) (auto simp: traced_fn_def split: sum.splits)

lemma measure_loop_erase:
  "map_sum id (map_prod id fst) (measure_loop n (traced_now now) (traced_fn fn) rs (w, tr))
     = measure_loop n now fn rs w"
  by (induction n arbitrary: w tr rs)
    (auto simp: traced_fn_def traced_now_def split: sum.splits prod.splits)

lemma run_erase:
  "map_sum id (map_prod id fst)
     (case warmup_loop (nat warmup) (traced_fn fn) (w, tr) of
        Inl e \<Rightarrow> Inl e
      | Inr w1 \<Rightarrow>
          (case measure_loop (nat repeats) (traced_now now) (traced_fn fn) [] w1 of
             Inl e \<Rightarrow> Inl e
           | Inr (rs, w2) \<Rightarrow> Inr (\<lparr>name = label, runs = rs\<rparr>, w2)))
   = (case warmup_loop (nat warmup) fn w of
        Inl e \<Rightarrow> Inl e
      | Inr w1 \<Rightarrow>
          (case measure_loop (nat repeats) now fn [] w1 of
             Inl e \<Rightarrow> Inl e
           | Inr (rs, w2) \<Rightarrow> Inr (\<lparr>name = label, runs = rs\<rparr>, w2)))"
proof (cases "warmup_loop (nat warmup) (traced_fn fn) (w, tr)")
  case (Inl e)
  with warmup_loop_erase [of "nat warmup" fn w tr] show ?thesis
    by (auto split: sum.splits)
next
  case (Inr p)
  obtain w1 tr1 where p: "p = (w1, tr1)" by (cases p)
  from Inr p warmup_loop_erase [of "nat warmup" fn w tr]
  have a: "warmup_loop (nat warmup) fn w = Inr w1" by simp
  show ?thesis
    using measure_loop_erase [of "nat repeats" now fn "[]" w1 tr1]
    by (auto simp: Inr p a split: sum.splits prod.splits)
qed

text \<open>Logging changes nothing: a run on the logging world is the plain run, with a log.\<close>

lemma run_repeated_erase:
  "map_sum id (map_prod id fst)
     (run_repeated label repeats (traced_fn fn) warmup (traced_now now) (w, tr))
   = run_repeated label repeats fn warmup now w"
  unfolding run_repeated_def by (rule run_erase)

lemma run_repeated_async_erase:
  "map_sum id (map_prod id fst)
     (run_repeated_async label repeats (traced_fn fn) warmup (traced_now now) (w, tr))
   = run_repeated_async label repeats fn warmup now w"
  unfolding run_repeated_async_def traced_await by (rule run_erase)

lemma run_repeated_blocking_erase:
  "map_sum id (map_prod id fst)
     (run_repeated_blocking label repeats (traced_fn fn) warmup (traced_now now) (w, tr))
   = run_repeated_blocking label repeats fn warmup now w"
  unfolding run_repeated_blocking_def traced_await traced_to_thread by (rule run_erase)

lemma durations_of_log:
  assumes "\<exists>ps. length ps = nat repeats \<and> tr = run_log (nat warmup) ps
     \<and> runs res = map (\<lambda>p. snd p - fst p) ps \<and> name res = label"
  shows "length (runs res) = nat repeats" and "runs res = trace_durations tr"
    and "sorted (readings tr) \<Longrightarrow> \<forall>d \<in> set (runs res). 0 \<le> d"
    and "map is_clock tr
      = replicate (nat warmup) False @ concat (replicate (nat repeats) [True, False, True])"
    and "length (filter (\<lambda>e. \<not> is_clock e) tr) = nat warmup + nat repeats"
proof -
  from assms obtain ps where ps: "length ps = nat repeats" "tr = run_log (nat warmup) ps"
    "runs res = map (\<lambda>p. snd p - fst p) ps" by blast
  show "length (runs res) = nat repeats" using ps by simp
  show "runs res = trace_durations tr" using ps by (simp add: trace_durations_run_log)
  show "sorted (readings tr) \<Longrightarrow> \<forall>d \<in> set (runs res). 0 \<le> d"
    using ps sorted_readings_nonneg [of "nat warmup" ps] by simp
  show "map is_clock tr
      = replicate (nat warmup) False @ concat (replicate (nat repeats) [True, False, True])"
    using ps by (simp add: is_clock_run_log)
  show "length (filter (\<lambda>e. \<not> is_clock e) tr) = nat warmup + nat repeats"
    using ps by (simp add: invocations_run_log)
qed

text \<open>
  Claim C1. For \<open>repeats \<ge> 1\<close> and \<open>warmup \<ge> 0\<close>, a call of \<open>run_repeated\<close> or
  \<open>run_repeated_async\<close> that returns gives a Result with exactly \<open>repeats\<close> durations; they
  are the durations of the measured trials in the order the trials ran (the durations the
  log shows); and each is \<open>\<ge> 0\<close> when the clock readings of the run never decrease, which is
  what a monotonic clock guarantees.
\<close>

theorem run_repeated_durations:
  assumes "1 \<le> repeats" and "0 \<le> warmup"
  shows "(run_repeated label repeats (traced_fn fn) warmup (traced_now now) (w, [])
            = Inr (res, (w', tr)) \<longrightarrow>
          int (length (runs res)) = repeats \<and> runs res = trace_durations tr
          \<and> (sorted (readings tr) \<longrightarrow> (\<forall>d \<in> set (runs res). 0 \<le> d)))
    \<and> (run_repeated_async label repeats (traced_fn fn) warmup (traced_now now) (w, [])
            = Inr (res, (w', tr)) \<longrightarrow>
          int (length (runs res)) = repeats \<and> runs res = trace_durations tr
          \<and> (sorted (readings tr) \<longrightarrow> (\<forall>d \<in> set (runs res). 0 \<le> d)))"
proof (intro conjI impI)
  assume "run_repeated label repeats (traced_fn fn) warmup (traced_now now) (w, [])
    = Inr (res, (w', tr))"
  note log = run_repeated_traced [OF this]
  show "int (length (runs res)) = repeats"
    using durations_of_log(1) [OF log] assms by simp
  show "runs res = trace_durations tr"
    by (rule durations_of_log(2) [OF log])
  show "\<forall>d \<in> set (runs res). 0 \<le> d" if "sorted (readings tr)"
    using that by (rule durations_of_log(3) [OF log])
next
  assume "run_repeated_async label repeats (traced_fn fn) warmup (traced_now now) (w, [])
    = Inr (res, (w', tr))"
  note log = run_repeated_async_traced [OF this]
  show "int (length (runs res)) = repeats"
    using durations_of_log(1) [OF log] assms by simp
  show "runs res = trace_durations tr"
    by (rule durations_of_log(2) [OF log])
  show "\<forall>d \<in> set (runs res). 0 \<le> d" if "sorted (readings tr)"
    using that by (rule durations_of_log(3) [OF log])
qed

lemma busy_run:
  "run_repeated ''threads'' 2 (traced_fn busy) 1 (traced_now tick_now) (0, [])
     = Inr (\<lparr>name = ''threads'', runs = [6, 6]\<rparr>, (19, [Invoke, Clock 5, Invoke, Clock 11, Clock 12, Invoke, Clock 18]))"
  by (simp add: run_repeated_def traced_fn_def traced_now_def busy_def tick_now_def
      eval_nat_numeral)

lemma busy_run_async:
  "run_repeated_async ''threads'' 2 (traced_fn busy) 1 (traced_now tick_now) (0, [])
     = Inr (\<lparr>name = ''threads'', runs = [6, 6]\<rparr>, (19, [Invoke, Clock 5, Invoke, Clock 11, Clock 12, Invoke, Clock 18]))"
  by (simp add: run_repeated_async_def py_await_def traced_fn_def traced_now_def busy_def
      tick_now_def eval_nat_numeral)

lemma busy_run_blocking:
  "run_repeated_blocking ''threads'' 2 (traced_fn busy) 1 (traced_now tick_now) (0, [])
     = Inr (\<lparr>name = ''threads'', runs = [6, 6]\<rparr>, (19, [Invoke, Clock 5, Invoke, Clock 11, Clock 12, Invoke, Clock 18]))"
  by (simp add: run_repeated_blocking_def py_await_def to_thread_def traced_fn_def
      traced_now_def busy_def tick_now_def eval_nat_numeral)

theorem run_repeated_durations_witness:
  "(1::int) \<le> 2 \<and> (0::int) \<le> 1
    \<and> run_repeated ''threads'' 2 (traced_fn busy) 1 (traced_now tick_now) (0, [])
        = Inr (\<lparr>name = ''threads'', runs = [6, 6]\<rparr>, (19, [Invoke, Clock 5, Invoke, Clock 11, Clock 12, Invoke, Clock 18]))
    \<and> run_repeated_async ''threads'' 2 (traced_fn busy) 1 (traced_now tick_now) (0, [])
        = Inr (\<lparr>name = ''threads'', runs = [6, 6]\<rparr>, (19, [Invoke, Clock 5, Invoke, Clock 11, Clock 12, Invoke, Clock 18]))
    \<and> sorted (readings [Invoke, Clock 5, Invoke, Clock 11, Clock 12, Invoke, Clock 18])
    \<and> int (length (runs \<lparr>name = ''threads'', runs = [6, 6]\<rparr>)) = 2
    \<and> runs \<lparr>name = ''threads'', runs = [6, 6]\<rparr> = trace_durations [Invoke, Clock 5, Invoke, Clock 11, Clock 12, Invoke, Clock 18]
    \<and> list_all (\<lambda>d. 0 \<le> d) (runs \<lparr>name = ''threads'', runs = [6, 6]\<rparr>)"
  using run_repeated_durations [where repeats = 2 and warmup = 1 and label = "''threads''"
      and fn = busy and now = tick_now and w = 0 and res = "\<lparr>name = ''threads'', runs = [6, 6]\<rparr>" and w' = 19
      and tr = "[Invoke, Clock 5, Invoke, Clock 11, Clock 12, Invoke, Clock 18]"]
    busy_run busy_run_async
  by simp

text \<open>
  Claim C6. For \<open>warmup \<ge> 0\<close> and \<open>repeats \<ge> 0\<close>, a call of \<open>run_repeated\<close>,
  \<open>run_repeated_async\<close> or \<open>run_repeated_blocking\<close> that returns has executed the invocation
  exactly \<open>warmup + repeats\<close> times: first \<open>warmup\<close> invocations with no clock reading around
  them, whose durations are not recorded, then \<open>repeats\<close> invocations each between two clock
  readings, whose durations are the ones recorded.
\<close>

theorem run_repeated_invocations:
  assumes "0 \<le> warmup" and "0 \<le> repeats"
  shows "(run_repeated label repeats (traced_fn fn) warmup (traced_now now) (w, [])
            = Inr (res, (w', tr)) \<longrightarrow>
          map is_clock tr
            = replicate (nat warmup) False @ concat (replicate (nat repeats) [True, False, True])
          \<and> int (length (filter (\<lambda>e. \<not> is_clock e) tr)) = warmup + repeats
          \<and> int (length (runs res)) = repeats \<and> runs res = trace_durations tr)
    \<and> (run_repeated_async label repeats (traced_fn fn) warmup (traced_now now) (w, [])
            = Inr (res, (w', tr)) \<longrightarrow>
          map is_clock tr
            = replicate (nat warmup) False @ concat (replicate (nat repeats) [True, False, True])
          \<and> int (length (filter (\<lambda>e. \<not> is_clock e) tr)) = warmup + repeats
          \<and> int (length (runs res)) = repeats \<and> runs res = trace_durations tr)
    \<and> (run_repeated_blocking label repeats (traced_fn fn) warmup (traced_now now) (w, [])
            = Inr (res, (w', tr)) \<longrightarrow>
          map is_clock tr
            = replicate (nat warmup) False @ concat (replicate (nat repeats) [True, False, True])
          \<and> int (length (filter (\<lambda>e. \<not> is_clock e) tr)) = warmup + repeats
          \<and> int (length (runs res)) = repeats \<and> runs res = trace_durations tr)"
proof -
  have main: "map is_clock tr
        = replicate (nat warmup) False @ concat (replicate (nat repeats) [True, False, True])
      \<and> int (length (filter (\<lambda>e. \<not> is_clock e) tr)) = warmup + repeats
      \<and> int (length (runs res)) = repeats \<and> runs res = trace_durations tr"
    if log: "\<exists>ps. length ps = nat repeats \<and> tr = run_log (nat warmup) ps
       \<and> runs res = map (\<lambda>p. snd p - fst p) ps \<and> name res = label"
    using durations_of_log(1,2,4,5) [OF log] assms by simp
  have a: "run_repeated label repeats (traced_fn fn) warmup (traced_now now) (w, [])
      = Inr (res, (w', tr)) \<longrightarrow>
    map is_clock tr
        = replicate (nat warmup) False @ concat (replicate (nat repeats) [True, False, True])
      \<and> int (length (filter (\<lambda>e. \<not> is_clock e) tr)) = warmup + repeats
      \<and> int (length (runs res)) = repeats \<and> runs res = trace_durations tr"
    by (rule impI, rule main, erule run_repeated_traced)
  have b: "run_repeated_async label repeats (traced_fn fn) warmup (traced_now now) (w, [])
      = Inr (res, (w', tr)) \<longrightarrow>
    map is_clock tr
        = replicate (nat warmup) False @ concat (replicate (nat repeats) [True, False, True])
      \<and> int (length (filter (\<lambda>e. \<not> is_clock e) tr)) = warmup + repeats
      \<and> int (length (runs res)) = repeats \<and> runs res = trace_durations tr"
    by (rule impI, rule main, erule run_repeated_async_traced)
  have c: "run_repeated_blocking label repeats (traced_fn fn) warmup (traced_now now) (w, [])
      = Inr (res, (w', tr)) \<longrightarrow>
    map is_clock tr
        = replicate (nat warmup) False @ concat (replicate (nat repeats) [True, False, True])
      \<and> int (length (filter (\<lambda>e. \<not> is_clock e) tr)) = warmup + repeats
      \<and> int (length (runs res)) = repeats \<and> runs res = trace_durations tr"
    by (rule impI, rule main, erule run_repeated_blocking_traced)
  show ?thesis
    by (rule conjI [OF a conjI [OF b c]])
qed

theorem run_repeated_invocations_witness:
  "(0::int) \<le> 1 \<and> (0::int) \<le> 2
    \<and> run_repeated ''threads'' 2 (traced_fn busy) 1 (traced_now tick_now) (0, [])
        = Inr (\<lparr>name = ''threads'', runs = [6, 6]\<rparr>, (19, [Invoke, Clock 5, Invoke, Clock 11, Clock 12, Invoke, Clock 18]))
    \<and> run_repeated_async ''threads'' 2 (traced_fn busy) 1 (traced_now tick_now) (0, [])
        = Inr (\<lparr>name = ''threads'', runs = [6, 6]\<rparr>, (19, [Invoke, Clock 5, Invoke, Clock 11, Clock 12, Invoke, Clock 18]))
    \<and> run_repeated_blocking ''threads'' 2 (traced_fn busy) 1 (traced_now tick_now) (0, [])
        = Inr (\<lparr>name = ''threads'', runs = [6, 6]\<rparr>, (19, [Invoke, Clock 5, Invoke, Clock 11, Clock 12, Invoke, Clock 18]))
    \<and> map is_clock [Invoke, Clock 5, Invoke, Clock 11, Clock 12, Invoke, Clock 18] = [False, True, False, True, True, False, True]
    \<and> length (filter (\<lambda>e. \<not> is_clock e) [Invoke, Clock 5, Invoke, Clock 11, Clock 12, Invoke, Clock 18]) = 3
    \<and> length (runs \<lparr>name = ''threads'', runs = [6, 6]\<rparr>) = 2"
  using run_repeated_invocations [where repeats = 2 and warmup = 1 and label = "''threads''"
      and fn = busy and now = tick_now and w = 0 and res = "\<lparr>name = ''threads'', runs = [6, 6]\<rparr>" and w' = 19
      and tr = "[Invoke, Clock 5, Invoke, Clock 11, Clock 12, Invoke, Clock 18]"]
    busy_run busy_run_async busy_run_blocking
  by simp

text \<open>
  Claim C10. On a Result with no durations, \<open>med\<close>, \<open>min\<close> and \<open>max\<close> each return NaN and
  do not raise. \<open>run_repeated\<close> with \<open>repeats = 0\<close> measures nothing and returns such a Result:
  whenever its warmup invocations return, it returns the Result with the empty list, and
  with no warmup it returns it at once.
\<close>

theorem empty_result_total:
  "(runs r = [] \<longrightarrow>
      Result_med r = Inr NaN \<and> Result_min r = Inr NaN \<and> Result_max r = Inr NaN)
    \<and> (warmup_loop (nat warmup) fn w = Inr w1 \<longrightarrow>
      run_repeated label 0 fn warmup now w = Inr (\<lparr>name = label, runs = []\<rparr>, w1))
    \<and> run_repeated label 0 fn 0 now w = Inr (\<lparr>name = label, runs = []\<rparr>, w)"
  by (simp add: Result_med_def Result_min_def Result_max_def median_def run_repeated_def)

theorem empty_result_total_witness:
  "runs \<lparr>name = ''threads'', runs = []\<rparr> = []
    \<and> Result_med \<lparr>name = ''threads'', runs = []\<rparr> = Inr NaN
    \<and> Result_min \<lparr>name = ''threads'', runs = []\<rparr> = Inr NaN
    \<and> Result_max \<lparr>name = ''threads'', runs = []\<rparr> = Inr NaN
    \<and> warmup_loop (nat 1) busy 0 = Inr 5
    \<and> run_repeated ''threads'' 0 busy 1 tick_now 0 = Inr (\<lparr>name = ''threads'', runs = []\<rparr>, 5)"
  using empty_result_total [where r = "\<lparr>name = ''threads'', runs = []\<rparr>" and warmup = 1
      and fn = busy and w = 0 and ?w1.0 = 5 and label = "''threads''" and now = tick_now]
  by (simp add: busy_def)

end
